theory Spec2Isabelle
  imports Main "HOL-Library.Char_ord" "HOL-Library.List_Lexorder"
begin

section \<open>The syntax tree of Python's \<^verbatim>\<open>ast\<close> module\<close>

text \<open>
  \<^verbatim>\<open>mermaidomatic.py\<close> inspects the tree that \<^verbatim>\<open>ast.parse\<close> returns. The model keeps a
  constructor for every node class the program tests with \<^verbatim>\<open>isinstance\<close> or reads a field
  of (\<^verbatim>\<open>FunctionDef\<close>, \<^verbatim>\<open>arguments\<close>, \<^verbatim>\<open>arg\<close>, \<^verbatim>\<open>Return\<close>, \<^verbatim>\<open>For\<close>, \<^verbatim>\<open>While\<close>,
  \<^verbatim>\<open>Call\<close>, \<^verbatim>\<open>Name\<close>, \<^verbatim>\<open>Constant\<close>, and \<^verbatim>\<open>Module\<close> and \<^verbatim>\<open>Expr\<close> for the docstring), with
  the node-valued fields in the order of the class's \<^verbatim>\<open>_fields\<close>. Every other class is
  \<open>Other kind children\<close>: its class name and its child nodes in the order
  \<^verbatim>\<open>ast.iter_child_nodes\<close> yields them (\<^verbatim>\<open>AsyncFunctionDef\<close>, \<^verbatim>\<open>AsyncFor\<close>, \<^verbatim>\<open>ClassDef\<close>,
  \<^verbatim>\<open>If\<close>, \<^verbatim>\<open>BinOp\<close>, \<^verbatim>\<open>Attribute\<close>, \<^verbatim>\<open>keyword\<close>, ...). The expression contexts
  (\<^verbatim>\<open>Load\<close>, \<^verbatim>\<open>Store\<close>, \<^verbatim>\<open>Del\<close>) are left out: they are childless nodes of a class the
  program never tests, so visiting them changes nothing. The fields are those of Python
  3.8 to 3.11 (the parser yields \<^verbatim>\<open>Constant\<close> from 3.8 on; 3.12 adds \<^verbatim>\<open>type_params\<close>);
  \<^verbatim>\<open>type_comment\<close> is a string, and \<^verbatim>\<open>type_ignores\<close> of a module is empty unless type
  comments are asked for.

  Nodes are values here: two occurrences of the same expression are equal.
\<close>

datatype pyconst =
    CStr string
  | CInt int
  | CBool bool
  | CNone
  | COther string  \<comment> \<open>a float, complex, bytes or Ellipsis constant, by its \<^verbatim>\<open>repr\<close>\<close>

datatype 'e arg = Arg string "'e option"  \<comment> \<open>\<^verbatim>\<open>arg(arg, annotation)\<close>\<close>

datatype 'e arguments =
  Arguments "'e arg list" "'e arg list" "'e arg option" "'e arg list"
            "'e option list" "'e arg option" "'e list"
  \<comment> \<open>\<^verbatim>\<open>arguments(posonlyargs, args, vararg, kwonlyargs, kw_defaults, kwarg, defaults)\<close>\<close>

datatype node =
    Module "node list"
  | FunctionDef string "node arguments" "node list" "node list" "node option"
      \<comment> \<open>\<^verbatim>\<open>FunctionDef(name, args, body, decorator_list, returns)\<close>\<close>
  | arguments_node "node arguments"  \<comment> \<open>the \<^verbatim>\<open>arguments\<close> object, as a node of the walk\<close>
  | arg_node "node arg"  \<comment> \<open>an \<^verbatim>\<open>arg\<close> object, as a node of the walk\<close>
  | Return "node option"
  | For node node "node list" "node list"  \<comment> \<open>\<^verbatim>\<open>For(target, iter, body, orelse)\<close>\<close>
  | While node "node list" "node list"  \<comment> \<open>\<^verbatim>\<open>While(test, body, orelse)\<close>\<close>
  | Expr node
  | Call node "node list" "node list"  \<comment> \<open>\<^verbatim>\<open>Call(func, args, keywords)\<close>\<close>
  | Name string
  | Constant pyconst
  | Other string "node list"

text \<open>\<^verbatim>\<open>type(node).__name__\<close>.\<close>

fun class_name :: "node \<Rightarrow> string" where
  "class_name (Module body) = ''Module''"
| "class_name (FunctionDef name args body decorator_list rets) = ''FunctionDef''"
| "class_name (arguments_node a) = ''arguments''"
| "class_name (arg_node a) = ''arg''"
| "class_name (Return v) = ''Return''"
| "class_name (For target iter body orelse) = ''For''"
| "class_name (While test body orelse) = ''While''"
| "class_name (Expr v) = ''Expr''"
| "class_name (Call func args keywords) = ''Call''"
| "class_name (Name ident) = ''Name''"
| "class_name (Constant v) = ''Constant''"
| "class_name (Other kind children) = kind"

text \<open>The entries of a list of optional nodes that are nodes (\<^verbatim>\<open>None\<close> is skipped).\<close>

definition present :: "'a option list \<Rightarrow> 'a list" where
  "present xs = concat (map (\<lambda>x. case x of None \<Rightarrow> [] | Some y \<Rightarrow> [y]) xs)"

text \<open>\<^verbatim>\<open>ast.iter_child_nodes\<close>: the node-valued fields, in field order.\<close>

fun iter_child_nodes :: "node \<Rightarrow> node list" where
  "iter_child_nodes (Module body) = body"
| "iter_child_nodes (FunctionDef name args body decorator_list rets) =
     arguments_node args # body @ decorator_list @ present [rets]"
| "iter_child_nodes
     (arguments_node (Arguments posonlyargs args vararg kwonlyargs kw_defaults kwarg defaults)) =
     map arg_node posonlyargs @ map arg_node args @ map arg_node (present [vararg])
     @ map arg_node kwonlyargs @ present kw_defaults @ map arg_node (present [kwarg])
     @ defaults"
| "iter_child_nodes (arg_node (Arg name annotation)) = present [annotation]"
| "iter_child_nodes (Return v) = present [v]"
| "iter_child_nodes (For target iter body orelse) = target # iter # body @ orelse"
| "iter_child_nodes (While test body orelse) = test # body @ orelse"
| "iter_child_nodes (Expr v) = [v]"
| "iter_child_nodes (Call func args keywords) = func # args @ keywords"
| "iter_child_nodes (Name ident) = []"
| "iter_child_nodes (Constant v) = []"
| "iter_child_nodes (Other kind children) = children"

subsection \<open>A measure under which the children of a node weigh less than the node\<close>

fun weight :: "node \<Rightarrow> nat" where
  "weight (arguments_node a) = 2 * size_arguments size a + 1"
| "weight (arg_node a) = 2 * size_arg size a + 1"
| "weight n = 2 * size n + 1"

lemma weight_le: "weight x \<le> 2 * size x + 1"
  by (cases x) simp_all

lemma weight_list: "sum_list (map weight xs) \<le> 2 * size_list size xs"
proof (induction xs)
  case (Cons x xs)
  with weight_le [of x] show ?case by simp
qed simp

lemma weight_option: "sum_list (map weight (present [v])) \<le> 2 * size_option size v"
proof (cases v)
  case (Some x)
  with weight_le [of x] show ?thesis by (simp add: present_def)
qed (simp add: present_def)

lemma weight_options:
  "sum_list (map weight (present vs)) \<le> 2 * size_list (size_option size) vs"
proof (induction vs)
  case (Cons v vs)
  have "present (v # vs) = present [v] @ present vs" by (simp add: present_def)
  with Cons weight_option [of v] show ?case by simp
qed (simp add: present_def)

lemma weight_args:
  "sum_list (map weight (map arg_node as)) \<le> 2 * size_list (size_arg size) as"
  by (induction as) auto

lemma weight_arg_option:
  "sum_list (map weight (map arg_node (present [a]))) \<le> 2 * size_option (size_arg size) a"
  by (cases a) (simp_all add: present_def)

lemma weight_children: "sum_list (map weight (iter_child_nodes n)) < weight n"
proof (cases n)
  case (Module body)
  then show ?thesis using weight_list [of body] by simp
next
  case (FunctionDef name a body decs ret)
  then show ?thesis
    using weight_list [of body] weight_list [of decs] weight_option [of ret] by simp
next
  case (arguments_node a)
  show ?thesis
  proof (cases a)
    case (Arguments po ar va kwo kwd kwa de)
    show ?thesis
      using weight_args [of po] weight_args [of ar] weight_args [of kwo]
        weight_arg_option [of va] weight_arg_option [of kwa]
        weight_options [of kwd] weight_list [of de]
      unfolding arguments_node Arguments by simp
  qed
next
  case (arg_node a)
  show ?thesis
  proof (cases a)
    case (Arg name ann)
    show ?thesis using weight_option [of ann] unfolding arg_node Arg by simp
  qed
next
  case (Return v)
  then show ?thesis using weight_option [of v] by simp
next
  case (For t i body orelse)
  then show ?thesis
    using weight_le [of t] weight_le [of i] weight_list [of body] weight_list [of orelse]
    by simp
next
  case (While t body orelse)
  then show ?thesis
    using weight_le [of t] weight_list [of body] weight_list [of orelse] by simp
next
  case (Expr v)
  then show ?thesis using weight_le [of v] by simp
next
  case (Call f as ks)
  then show ?thesis
    using weight_le [of f] weight_list [of as] weight_list [of ks] by simp
next
  case (Other k cs)
  then show ?thesis using weight_list [of cs] by simp
qed simp_all

subsection \<open>\<^verbatim>\<open>ast.walk\<close>\<close>

text \<open>
  \<^verbatim>\<open>
  def walk(node):
      todo = deque([node])
      while todo:
          node = todo.popleft()
          todo.extend(iter_child_nodes(node))
          yield node
  \<close>
  A breadth-first traversal: the queue is the argument, the yielded nodes are the result.
\<close>

function walk_queue :: "node list \<Rightarrow> node list" where
  "walk_queue [] = []"
| "walk_queue (n # todo) = n # walk_queue (todo @ iter_child_nodes n)"
  by pat_completeness auto
termination
proof (relation "measure (\<lambda>q. sum_list (map weight q))")
  show "wf (measure (\<lambda>q. sum_list (map weight q)))" by simp
next
  fix n :: node and todo :: "node list"
  show "(todo @ iter_child_nodes n, n # todo) \<in> measure (\<lambda>q. sum_list (map weight q))"
    using weight_children [of n] by simp
qed

definition walk :: "node \<Rightarrow> node list" where
  "walk n = walk_queue [n]"

text \<open>
  Lexical nesting, independent of the traversal order: \<open>descendant n m\<close> when \<open>m\<close> is
  \<open>n\<close> or lies below it.
\<close>

inductive descendant :: "node \<Rightarrow> node \<Rightarrow> bool" where
  self: "descendant n n"
| below: "c \<in> set (iter_child_nodes n) \<Longrightarrow> descendant c m \<Longrightarrow> descendant n m"

code_pred descendant .

section \<open>The program\<close>

subsection \<open>What the program takes from its runtime\<close>

text \<open>
  Four things are not fixed by the source text of the program: the order in which
  iterating a \<^verbatim>\<open>set\<close> of \<^verbatim>\<open>str\<close> yields its elements (it follows the strings' hashes, which
  CPython salts per process), \<^verbatim>\<open>inspect.cleandoc\<close> (called by \<^verbatim>\<open>ast.get_docstring\<close>), the
  parser \<^verbatim>\<open>ast.parse\<close> (which returns a tree or raises, \<^verbatim>\<open>SyntaxError\<close> on text that does not
  parse and \<^verbatim>\<open>ValueError\<close> on text with a NUL character), and the clock, read once and
  formatted by \<^verbatim>\<open>strftime\<close>. A set is represented by the sequence of its \<^verbatim>\<open>add\<close> calls;
  \<open>set_iter\<close> maps that sequence to the iteration order.
\<close>

datatype exn = TypeError | KeyError | SyntaxError | ValueError | UnicodeDecodeError | OSError

record runtime =
  set_iter :: "string list \<Rightarrow> string list"
  cleandoc :: "string \<Rightarrow> string"
  ast_parse :: "string \<Rightarrow> exn + node"
  utc_now :: string

datatype level = INFO | ERROR

text \<open>
  What is at a path: a file whose bytes decode to a text, a file whose bytes do not decode
  (\<^verbatim>\<open>f.read()\<close> raises \<^verbatim>\<open>UnicodeDecodeError\<close>), or a directory.
\<close>

datatype fs_entry = File string | Undecodable | Directory

record world =
  files :: "string \<rightharpoonup> fs_entry"
  writable :: "string \<Rightarrow> bool"  \<comment> \<open>whether \<^verbatim>\<open>open(path, 'w')\<close> succeeds\<close>
  logged :: "(level \<times> string) list"

subsection \<open>String helpers\<close>

text \<open>\<^verbatim>\<open>sep.join(xs)\<close> on a list of \<^verbatim>\<open>str\<close>.\<close>

fun join :: "string \<Rightarrow> string list \<Rightarrow> string" where
  "join sep [] = []"
| "join sep [x] = x"
| "join sep (x # y # ys) = x @ sep @ join sep (y # ys)"

text \<open>\<^verbatim>\<open>s.endswith(suffix)\<close>.\<close>

definition endswith :: "string \<Rightarrow> string \<Rightarrow> bool" where
  "endswith s suffix =
     (length suffix \<le> length s \<and> drop (length s - length suffix) s = suffix)"

text \<open>\<^verbatim>\<open>os.path.basename\<close> (POSIX): what follows the last slash.\<close>

definition basename :: "string \<Rightarrow> string" where
  "basename p = rev (takeWhile (\<lambda>c. c \<noteq> CHR ''/'') (rev p))"

text \<open>
  The two characters \<^verbatim>\<open>\n\<close> of the Python literal \<^verbatim>\<open>"\\n"\<close> (a backslash and the letter n),
  the double quote, and the line feed of \<^verbatim>\<open>"\n"\<close>.
\<close>

definition backslash_n :: string where
  "backslash_n = [CHR 0x5C, CHR ''n'']"

definition dquote :: string where
  "dquote = [CHR 0x22]"

definition newline :: string where
  "newline = [CHR 0x0A]"

subsection \<open>\<^verbatim>\<open>validate_file_path\<close>\<close>

text \<open>The result type \<^verbatim>\<open>Union[bool, str]\<close>.\<close>

datatype bool_or_str = PyBool bool | PyStr string

text \<open>\<^verbatim>\<open>os.path.exists\<close>: something (a file or a directory) is at the path.\<close>

definition path_exists :: "world \<Rightarrow> string \<Rightarrow> bool" where
  "path_exists w p = (files w p \<noteq> None)"

definition validate_file_path :: "world \<Rightarrow> string \<Rightarrow> bool_or_str" where
  "validate_file_path w file_path =
     (if \<not> path_exists w file_path then PyStr ''File does not exist.''
      else if \<not> endswith file_path ''.py'' then PyStr ''Not a Python file.''
      else PyBool True)"

subsection \<open>\<^verbatim>\<open>parse_python_file\<close>\<close>

text \<open>
  \<^verbatim>\<open>open\<close> raises an \<^verbatim>\<open>OSError\<close> when no file is at the path, \<^verbatim>\<open>read\<close> raises
  \<^verbatim>\<open>UnicodeDecodeError\<close> on bytes that do not decode, and what \<^verbatim>\<open>ast.parse\<close> raises leaves
  the function as it is.
\<close>

definition parse_python_file :: "runtime \<Rightarrow> world \<Rightarrow> string \<Rightarrow> exn + node" where
  "parse_python_file rt w file_path =
     (case files w file_path of
        Some (File text) \<Rightarrow> ast_parse rt text
      | Some Undecodable \<Rightarrow> Inl UnicodeDecodeError
      | Some Directory \<Rightarrow> Inl OSError
      | None \<Rightarrow> Inl OSError)"

subsection \<open>\<^verbatim>\<open>analyze_ast\<close>\<close>

record details =
  params :: "string list"
  returns :: string
  docstring :: "string option"

text \<open>
  One entry of \<^verbatim>\<open>function_calls[caller]\<close>: \<^verbatim>\<open>(sub_node.func.id, in_loop, params_passed)\<close>.
  An element of \<^verbatim>\<open>params_passed\<close> is a \<^verbatim>\<open>str\<close> (a name, a class name) or the value of a
  constant, whatever its type.
\<close>

type_synonym call = "string \<times> bool \<times> pyconst list"

text \<open>
  \<^verbatim>\<open>function_calls\<close> is a \<^verbatim>\<open>defaultdict(list)\<close>; \<^verbatim>\<open>generate_mermaid_syntax\<close> iterates its
  \<^verbatim>\<open>items()\<close>, so the insertion order of the keys matters: an association list, a new key
  at the end. \<^verbatim>\<open>function_details\<close> is only looked up: a map.
\<close>

type_synonym call_table = "(string \<times> call list) list"

type_synonym analysis_result = "string list \<times> call_table \<times> (string \<rightharpoonup> details)"

text \<open>\<^verbatim>\<open>function_calls[k]\<close> read on a \<^verbatim>\<open>defaultdict(list)\<close>: the empty list for a new key.\<close>

fun calls_of :: "call_table \<Rightarrow> string \<Rightarrow> call list" where
  "calls_of [] k = []"
| "calls_of ((k', cs) # rest) k = (if k' = k then cs else calls_of rest k)"

text \<open>\<^verbatim>\<open>function_calls[k].append(c)\<close>.\<close>

fun append_call :: "call_table \<Rightarrow> string \<Rightarrow> call \<Rightarrow> call_table" where
  "append_call [] k c = [(k, [c])]"
| "append_call ((k', cs) # rest) k c =
     (if k' = k then (k', cs @ [c]) # rest else (k', cs) # append_call rest k c)"

text \<open>\<^verbatim>\<open>isinstance(sub_node, ast.Return)\<close> with a \<^verbatim>\<open>value\<close> (an AST object is always truthy).\<close>

fun returned_value :: "node \<Rightarrow> node option" where
  "returned_value (Return (Some v)) = Some v"
| "returned_value n = None"

text \<open>The first inner loop: the \<^verbatim>\<open>add\<close> calls on \<^verbatim>\<open>return_types\<close>, in order.\<close>

definition collect_return_types :: "node list \<Rightarrow> string list" where
  "collect_return_types sub_nodes =
     foldl (\<lambda>return_types sub_node.
              case returned_value sub_node of
                Some v \<Rightarrow> return_types @ [class_name v]
              | None \<Rightarrow> return_types)
       [] sub_nodes"

text \<open>\<^verbatim>\<open>[arg.arg for arg in node.args.args]\<close>.\<close>

fun arg_names :: "node arguments \<Rightarrow> string list" where
  "arg_names (Arguments posonlyargs args vararg kwonlyargs kw_defaults kwarg defaults) =
     map (\<lambda>a. case a of Arg name annotation \<Rightarrow> name) args"

text \<open>
  \<^verbatim>\<open>ast.get_docstring(node, clean=True)\<close> on a \<^verbatim>\<open>FunctionDef\<close>, given its body: the body's
  first statement when that is an expression statement of a \<^verbatim>\<open>str\<close> constant.
\<close>

fun get_docstring :: "runtime \<Rightarrow> node list \<Rightarrow> string option" where
  "get_docstring rt (Expr (Constant (CStr text)) # rest) = Some (cleandoc rt text)"
| "get_docstring rt body = None"

text \<open>\<^verbatim>\<open>isinstance(sub_node, (ast.For, ast.While))\<close>.\<close>

fun is_loop :: "node \<Rightarrow> bool" where
  "is_loop (For target iter body orelse) = True"
| "is_loop (While test body orelse) = True"
| "is_loop n = False"

text \<open>
  \<^verbatim>\<open>isinstance(sub_node, ast.Call) and isinstance(sub_node.func, ast.Name)\<close>: the called name
  and the positional arguments.
\<close>

fun call_target :: "node \<Rightarrow> (string \<times> node list) option" where
  "call_target (Call (Name ident) args keywords) = Some (ident, args)"
| "call_target n = None"

text \<open>
  \<^verbatim>\<open>arg.id if isinstance(arg, ast.Name) else arg.value if isinstance(arg, ast.Constant)
  else type(arg).__name__\<close>.
\<close>

fun describe_arg :: "node \<Rightarrow> pyconst" where
  "describe_arg (Name ident) = CStr ident"
| "describe_arg (Constant v) = v"
| "describe_arg n = CStr (class_name n)"

text \<open>
  The body of the second inner loop (lines 43 to 50), on the state \<open>(in_loop,
  function_calls)\<close>; \<open>analysis\<close> and the caller's name are fixed while it runs.
\<close>

definition visit_sub_node ::
  "string list \<Rightarrow> string \<Rightarrow> bool \<times> call_table \<Rightarrow> node \<Rightarrow> bool \<times> call_table" where
  "visit_sub_node analysis caller st sub_node =
     (let in_loop = (if is_loop sub_node then True else fst st);
          function_calls = snd st
      in case call_target sub_node of
           Some (ident, args) \<Rightarrow>
             if ident \<in> set analysis
             then (in_loop,
                   append_call function_calls caller (ident, in_loop, map describe_arg args))
             else (in_loop, function_calls)
         | None \<Rightarrow> (in_loop, function_calls))"

text \<open>The entry stored in \<^verbatim>\<open>function_details[node.name]\<close> (lines 29 to 39).\<close>

definition details_of :: "runtime \<Rightarrow> node \<Rightarrow> node arguments \<Rightarrow> node list \<Rightarrow> details" where
  "details_of rt node args body =
     (let return_types = collect_return_types (walk node)
      in \<lparr>params = arg_names args,
          returns = (if return_types \<noteq> [] then join '', '' (set_iter rt return_types)
                     else ''None''),
          docstring = get_docstring rt body\<rparr>)"

text \<open>The body of the outer loop (lines 27 to 50).\<close>

fun visit_node :: "runtime \<Rightarrow> analysis_result \<Rightarrow> node \<Rightarrow> analysis_result" where
  "visit_node rt (analysis, function_calls, function_details)
       (FunctionDef name args body decorator_list rets) =
     (let node = FunctionDef name args body decorator_list rets;
          analysis = analysis @ [name];
          function_details = function_details(name \<mapsto> details_of rt node args body);
          function_calls =
            snd (foldl (visit_sub_node analysis name) (False, function_calls) (walk node))
      in (analysis, function_calls, function_details))"
| "visit_node rt st n = st"

definition analyze_ast :: "runtime \<Rightarrow> node \<Rightarrow> analysis_result" where
  "analyze_ast rt ast_tree = foldl (visit_node rt) ([], [], Map.empty) (walk ast_tree)"

subsection \<open>\<^verbatim>\<open>generate_mermaid_syntax\<close>\<close>

text \<open>
  \<^verbatim>\<open>', '.join(params_passed)\<close> raises \<^verbatim>\<open>TypeError\<close> at an item that is not a \<^verbatim>\<open>str\<close>:
  \<open>str_items\<close> is \<open>None\<close> then.
\<close>

fun str_items :: "pyconst list \<Rightarrow> string list option" where
  "str_items [] = Some []"
| "str_items (CStr s # vs) = map_option ((#) s) (str_items vs)"
| "str_items (v # vs) = None"

text \<open>One pass of the first loop (lines 58 to 62): the text appended for \<open>func\<close>.\<close>

definition node_declaration :: "details \<Rightarrow> string \<Rightarrow> string" where
  "node_declaration d func =
     (let params_text = backslash_n @ backslash_n @ ''PARAMS: '' @ join '', '' (params d);
          returns_text = backslash_n @ backslash_n @ ''RETURNS: ''
                         @ (if returns d \<noteq> [] then returns d else ''None'');
          docstring_text = backslash_n @ backslash_n @ ''DOC: ''
                           @ (case docstring d of
                                None \<Rightarrow> ''None''
                              | Some doc \<Rightarrow> if doc \<noteq> [] then doc else ''None'')
      in func @ ''('' @ func @ params_text @ returns_text @ docstring_text @ '')'' @ newline)"

text \<open>
  The first loop. \<^verbatim>\<open>function_details\<close> is a \<^verbatim>\<open>defaultdict(dict)\<close>: for a name without an
  entry \<^verbatim>\<open>details['params']\<close> raises \<^verbatim>\<open>KeyError\<close>.
\<close>

fun nodes_loop :: "(string \<rightharpoonup> details) \<Rightarrow> string \<Rightarrow> string list \<Rightarrow> exn + string" where
  "nodes_loop function_details syntax [] = Inr syntax"
| "nodes_loop function_details syntax (func # rest) =
     (case function_details func of
        None \<Rightarrow> Inl KeyError
      | Some d \<Rightarrow> nodes_loop function_details (syntax @ node_declaration d func) rest)"

text \<open>One pass of the inner loop over the calls of \<open>func\<close> (lines 66 and 67).\<close>

definition edge_declaration :: "string \<Rightarrow> call \<Rightarrow> exn + string" where
  "edge_declaration func c =
     (case c of (callee, in_loop, params_passed) \<Rightarrow>
        (case str_items params_passed of
           None \<Rightarrow> Inl TypeError
         | Some items \<Rightarrow>
             (let label = (if in_loop then ''in_loop'' else ''calls'')
                          @ '' params: '' @ join '', '' items
              in Inr (func @ ''-->|'' @ dquote @ label @ dquote @ ''|'' @ callee @ '';''
                      @ newline))))"

fun calls_loop :: "string \<Rightarrow> string \<Rightarrow> call list \<Rightarrow> exn + string" where
  "calls_loop func syntax [] = Inr syntax"
| "calls_loop func syntax (c # rest) =
     (case edge_declaration func c of
        Inl e \<Rightarrow> Inl e
      | Inr line \<Rightarrow> calls_loop func (syntax @ line) rest)"

fun edges_loop :: "string \<Rightarrow> call_table \<Rightarrow> exn + string" where
  "edges_loop syntax [] = Inr syntax"
| "edges_loop syntax ((func, calls) # rest) =
     (case calls_loop func syntax calls of
        Inl e \<Rightarrow> Inl e
      | Inr syntax' \<Rightarrow> edges_loop syntax' rest)"

definition generate_mermaid_syntax :: "analysis_result \<Rightarrow> exn + string" where
  "generate_mermaid_syntax r =
     (case r of (analysis, function_calls, function_details) \<Rightarrow>
        (case nodes_loop function_details (''```mermaid'' @ newline @ ''graph TD;'' @ newline)
                analysis of
           Inl e \<Rightarrow> Inl e
         | Inr syntax \<Rightarrow>
             (case edges_loop syntax function_calls of
                Inl e \<Rightarrow> Inl e
              | Inr syntax' \<Rightarrow> Inr (syntax' @ ''```''))))"

subsection \<open>\<^verbatim>\<open>write_to_markdown\<close> and \<^verbatim>\<open>main\<close>\<close>

definition write_to_markdown ::
  "runtime \<Rightarrow> string \<Rightarrow> string \<Rightarrow> string \<Rightarrow> world \<Rightarrow> (exn + unit) \<times> world" where
  "write_to_markdown rt syntax output_path file_path w =
     (let current_time = utc_now rt
      in if \<not> writable w output_path then (Inl OSError, w)
         else (Inr (),
               w\<lparr>files := (files w)(output_path \<mapsto>
                     File (''# Generated Mermaid.js Diagram'' @ newline @ newline
                           @ ''**File Name:** '' @ basename file_path @ newline
                           @ ''**Date and Time of Diagram Generation:** '' @ current_time
                           @ newline @ newline @ syntax))\<rparr>))"

definition logging :: "level \<Rightarrow> string \<Rightarrow> world \<Rightarrow> world" where
  "logging lvl msg w = w\<lparr>logged := logged w @ [(lvl, msg)]\<rparr>"

text \<open>
  \<^verbatim>\<open>main\<close> returns \<open>Inr ()\<close> when it returns, \<open>Inl e\<close> when the exception \<open>e\<close> leaves it,
  with the world as it is then.
\<close>

definition main :: "runtime \<Rightarrow> string \<Rightarrow> string \<Rightarrow> world \<Rightarrow> (exn + unit) \<times> world" where
  "main rt file_path output_path w =
     (let validation_result = validate_file_path w file_path
      in if validation_result \<noteq> PyBool True
         then (Inr (),
               logging ERROR
                 (''Validation failed: ''
                  @ (case validation_result of PyStr s \<Rightarrow> s | PyBool b \<Rightarrow> ''False'')) w)
         else
           (let w = logging INFO ''Starting AST analysis...'' w
            in case parse_python_file rt w file_path of
                 Inl e \<Rightarrow> (Inl e, w)
               | Inr ast_tree \<Rightarrow>
                   (let r = analyze_ast rt ast_tree;
                        w = logging INFO ''Generating Mermaid.js syntax...'' w
                    in case generate_mermaid_syntax r of
                         Inl e \<Rightarrow> (Inl e, w)
                       | Inr mermaid_syntax \<Rightarrow>
                           (let w = logging INFO ''Writing to Markdown file...'' w
                            in case write_to_markdown rt mermaid_syntax output_path file_path w of
                                 (Inl e, w') \<Rightarrow> (Inl e, w')
                               | (Inr u, w') \<Rightarrow>
                                   (Inr (),
                                    logging INFO ''Process completed successfully.'' w')))))"

section \<open>Reading the result of the analysis\<close>

text \<open>
  Functions that describe, outside the loops, what the loops of \<^verbatim>\<open>analyze_ast\<close> compute;
  the lemmas below prove that they do.
\<close>

text \<open>\<^verbatim>\<open>node.name\<close> when \<^verbatim>\<open>isinstance(node, ast.FunctionDef)\<close>.\<close>

fun def_name :: "node \<Rightarrow> string option" where
  "def_name (FunctionDef name args body decorator_list rets) = Some name"
| "def_name n = None"

text \<open>The names of the function definitions among the nodes, in order.\<close>

fun def_names :: "node list \<Rightarrow> string list" where
  "def_names [] = []"
| "def_names (n # ns) =
     (case def_name n of None \<Rightarrow> def_names ns | Some name \<Rightarrow> name # def_names ns)"

text \<open>The entry that visiting a function definition stores in \<^verbatim>\<open>function_details\<close>.\<close>

fun def_details :: "runtime \<Rightarrow> node \<Rightarrow> details option" where
  "def_details rt (FunctionDef name args body decorator_list rets) =
     Some (details_of rt (FunctionDef name args body decorator_list rets) args body)"
| "def_details rt n = None"

text \<open>
  The calls that the second inner loop appends while it runs over \<open>sub_nodes\<close>, started
  with the flag \<open>in_loop\<close>.
\<close>

fun scan_calls :: "string list \<Rightarrow> bool \<Rightarrow> node list \<Rightarrow> call list" where
  "scan_calls analysis in_loop [] = []"
| "scan_calls analysis in_loop (sub_node # rest) =
     (case call_target sub_node of
        Some (ident, args) \<Rightarrow>
          if ident \<in> set analysis
          then [(ident, in_loop \<or> is_loop sub_node, map describe_arg args)]
          else []
      | None \<Rightarrow> [])
     @ scan_calls analysis (in_loop \<or> is_loop sub_node) rest"

text \<open>
  The calls appended to \<^verbatim>\<open>function_calls[caller]\<close> while the outer loop runs over \<open>ns\<close>,
  started with the name list \<open>analysis\<close>.
\<close>

fun calls_from :: "string list \<Rightarrow> string \<Rightarrow> node list \<Rightarrow> call list" where
  "calls_from analysis caller [] = []"
| "calls_from analysis caller (n # ns) =
     (case def_name n of
        None \<Rightarrow> calls_from analysis caller ns
      | Some name \<Rightarrow>
          (if name = caller then scan_calls (analysis @ [name]) False (walk n) else [])
          @ calls_from (analysis @ [name]) caller ns)"

text \<open>The first line of every output, and the declaration emitted for an entry of
  \<^verbatim>\<open>analysis\<close> that has details.\<close>

definition header :: string where
  "header = ''```mermaid'' @ newline @ ''graph TD;'' @ newline"

definition declaration_for :: "(string \<rightharpoonup> details) \<Rightarrow> string \<Rightarrow> string" where
  "declaration_for function_details func =
     (case function_details func of None \<Rightarrow> [] | Some d \<Rightarrow> node_declaration d func)"

text \<open>
  Whether some recorded call has an argument descriptor that is not a \<^verbatim>\<open>str\<close>: the
  calls at which \<^verbatim>\<open>', '.join(params_passed)\<close> raises.
\<close>

definition has_non_str_descriptor :: "call_table \<Rightarrow> bool" where
  "has_non_str_descriptor function_calls =
     list_ex (\<lambda>(func, calls). list_ex (\<lambda>(callee, in_loop, params_passed).
        str_items params_passed = None) calls) function_calls"

text \<open>How often \<open>pat\<close> occurs in a text (at how many positions it starts).\<close>

fun occurrences :: "string \<Rightarrow> string \<Rightarrow> nat" where
  "occurrences pat [] = (if pat = [] then 1 else 0)"
| "occurrences pat (c # cs) =
     (if take (length pat) (c # cs) = pat then 1 else 0) + occurrences pat cs"


subsection \<open>The loop flag as the specification words it\<close>

text \<open>
  This definition follows the specification's words, not the program: "track whether the
  current node is nested inside a repetition construct (loop), using a depth counter or
  boolean flag that is true for any node under a loop node and false outside one". The
  flag is passed down the tree, so it holds at a node exactly when a loop is among the
  node's proper ancestors inside the function. It is compared with the program's flag
  under C1.
\<close>

lemma child_weight: "c \<in> set (iter_child_nodes n) \<Longrightarrow> weight c < weight n"
  using weight_children [of n]
    member_le_sum_list [of "weight c" "map weight (iter_child_nodes n)"]
  by auto

function lexical_calls :: "string list \<Rightarrow> bool \<Rightarrow> node \<Rightarrow> call list" where
  "lexical_calls analysis inside_loop n =
     (case call_target n of
        Some (ident, args) \<Rightarrow>
          if ident \<in> set analysis then [(ident, inside_loop, map describe_arg args)] else []
      | None \<Rightarrow> [])
     @ concat (map (lexical_calls analysis (inside_loop \<or> is_loop n)) (iter_child_nodes n))"
  by pat_completeness auto
termination
  by (relation "measure (\<lambda>(analysis, inside_loop, n). weight n)") (auto simp: child_weight)

section \<open>Example inputs\<close>

text \<open>
  Two runtimes that differ only in the order in which a set is iterated. In both the
  order depends on the elements of the set alone, not on the order of the \<^verbatim>\<open>add\<close> calls
  nor on repeated calls: the elements in ascending order of the strings, and in descending
  order. Both orders occur for a set of the strings \<^verbatim>\<open>'Name'\<close> and \<^verbatim>\<open>'Constant'\<close>, since
  the hash of a \<^verbatim>\<open>str\<close> is salted anew in each process.
\<close>

definition ascending_runtime :: runtime where
  "ascending_runtime =
     \<lparr>set_iter = (\<lambda>adds. sort (remdups adds)), cleandoc = (\<lambda>text. text),
      ast_parse = (\<lambda>text. Inl SyntaxError), utc_now = ''2024-01-01 00:00:00 UTC''\<rparr>"

definition descending_runtime :: runtime where
  "descending_runtime =
     \<lparr>set_iter = (\<lambda>adds. rev (sort (remdups adds))), cleandoc = (\<lambda>text. text),
      ast_parse = (\<lambda>text. Inl SyntaxError), utc_now = ''2024-01-01 00:00:00 UTC''\<rparr>"

text \<open>A file system with nothing in it.\<close>

definition empty_world :: world where
  "empty_world = \<lparr>files = Map.empty, writable = (\<lambda>p. True), logged = []\<rparr>"

text \<open>A file system that holds one file, which is not a Python file.\<close>

definition text_file_world :: world where
  "text_file_world =
     \<lparr>files = [''notes.txt'' \<mapsto> File ''hello''], writable = (\<lambda>p. True), logged = []\<rparr>"

definition no_args :: "node arguments" where
  "no_args = Arguments [] [] None [] [] None []"

definition one_arg :: "string \<Rightarrow> node arguments" where
  "one_arg x = Arguments [] [Arg x None] None [] [] None []"

text \<open>
  \<^verbatim>\<open>
  def helper():
      pass
  def main():
      for i in x:
          pass
      helper()
  \<close>
\<close>

definition main_after_loop :: node where
  "main_after_loop =
     FunctionDef ''main'' no_args
       [For (Name ''i'') (Name ''x'') [Other ''Pass'' []] [],
        Expr (Call (Name ''helper'') [] [])] [] None"

definition call_after_loop :: node where
  "call_after_loop =
     Module [FunctionDef ''helper'' no_args [Other ''Pass'' []] [] None, main_after_loop]"

text \<open>
  \<^verbatim>\<open>
  def f(x):
      if x:
          return 1
      return x
  \<close>
\<close>

definition two_return_kinds :: node where
  "two_return_kinds =
     Module
       [FunctionDef ''f'' (one_arg ''x'')
          [Other ''If'' [Name ''x'', Return (Some (Constant (CInt 1)))],
           Return (Some (Name ''x''))] [] None]"

text \<open>
  \<^verbatim>\<open>
  def helper(x):
      pass
  def main():
      helper(1)
  \<close>
\<close>

definition numeric_argument :: node where
  "numeric_argument =
     Module
       [FunctionDef ''helper'' (one_arg ''x'') [Other ''Pass'' []] [] None,
        FunctionDef ''main'' no_args
          [Expr (Call (Name ''helper'') [Constant (CInt 1)] [])] [] None]"

text \<open>
  \<^verbatim>\<open>
  def f():
      pass
  def f(x):
      return x
  \<close>
  and the text the program produces for it.
\<close>

definition plain_f :: node where
  "plain_f = FunctionDef ''f'' no_args [Other ''Pass'' []] [] None"

definition second_f :: node where
  "second_f = FunctionDef ''f'' (one_arg ''x'') [Return (Some (Name ''x''))] [] None"

definition redefined :: node where
  "redefined = Module [FunctionDef ''f'' no_args [Other ''Pass'' []] [] None, second_f]"

definition redefined_output :: string where
  "redefined_output =
     ''```mermaid'' @ newline @ ''graph TD;'' @ newline
     @ ''f(f'' @ backslash_n @ backslash_n @ ''PARAMS: x'' @ backslash_n @ backslash_n
     @ ''RETURNS: Name'' @ backslash_n @ backslash_n @ ''DOC: None)'' @ newline
     @ ''f(f'' @ backslash_n @ backslash_n @ ''PARAMS: x'' @ backslash_n @ backslash_n
     @ ''RETURNS: Name'' @ backslash_n @ backslash_n @ ''DOC: None)'' @ newline
     @ ''```''"




text \<open>
  \<^verbatim>\<open>
  def first():
      second()
      print('x')
  def second():
      pass
  \<close>
\<close>

definition forward_reference :: node where
  "forward_reference =
     Module
       [FunctionDef ''first'' no_args
          [Expr (Call (Name ''second'') [] []),
           Expr (Call (Name ''print'') [Constant (CStr ''x'')] [])] [] None,
        FunctionDef ''second'' no_args [Other ''Pass'' []] [] None]"

text \<open>
  The scenario of the specification:
  \<^verbatim>\<open>
  def helper(x):
      return x
  def main(n):
      for i in range(n):
          helper(n)
  \<close>
\<close>

definition main_with_loop :: node where
  "main_with_loop =
     FunctionDef ''main'' (one_arg ''n'')
       [For (Name ''i'') (Call (Name ''range'') [Name ''n''] [])
          [Expr (Call (Name ''helper'') [Name ''n''] [])] []] [] None"

definition helper_and_main :: node where
  "helper_and_main =
     Module
       [FunctionDef ''helper'' (one_arg ''x'') [Return (Some (Name ''x''))] [] None,
        main_with_loop]"

text \<open>
  \<^verbatim>\<open>
  def countdown(n):
      return countdown(n)
  \<close>
\<close>

definition self_call :: node where
  "self_call =
     Module
       [FunctionDef ''countdown'' (one_arg ''n'')
          [Return (Some (Call (Name ''countdown'') [Name ''n''] []))] [] None]"


lemmas example_defs =
  ascending_runtime_def descending_runtime_def no_args_def one_arg_def

lemmas program_defs =
  analyze_ast_def walk_def present_def details_of_def collect_return_types_def
  visit_sub_node_def generate_mermaid_syntax_def node_declaration_def edge_declaration_def

section \<open>Lemmas\<close>

subsection \<open>The traversal reaches exactly the descendants\<close>

lemma descendant_step:
  "descendant n m \<longleftrightarrow> m = n \<or> (\<exists>c\<in>set (iter_child_nodes n). descendant c m)"
  by (auto intro: descendant.intros elim: descendant.cases)

lemma set_walk_queue: "set (walk_queue q) = {m. \<exists>n\<in>set q. descendant n m}"
proof (induction q rule: walk_queue.induct)
  case 1
  show ?case by simp
next
  case (2 n todo)
  show ?case
    unfolding walk_queue.simps list.set "2.IH"
    using descendant_step [of n] by auto
qed

lemma set_walk: "m \<in> set (walk n) \<longleftrightarrow> descendant n m"
  unfolding walk_def set_walk_queue by simp

subsection \<open>What the loops of \<^verbatim>\<open>analyze_ast\<close> compute\<close>

lemma def_names_append: "def_names (xs @ ys) = def_names xs @ def_names ys"
  by (induction xs) (auto split: option.splits)



lemma calls_of_append_call:
  "calls_of (append_call fc k c) k' = calls_of fc k' @ (if k' = k then [c] else [])"
  by (induction fc) auto

lemma visit_sub_node_fold:
  "foldl (visit_sub_node analysis caller) (in_loop, fc) sub_nodes = (il', fc') \<Longrightarrow>
   calls_of fc' k = calls_of fc k @ (if k = caller then scan_calls analysis in_loop sub_nodes else [])"
proof (induction sub_nodes arbitrary: in_loop fc)
  case Nil
  then show ?case by simp
next
  case (Cons s ss)
  obtain il1 fc1 where step: "visit_sub_node analysis caller (in_loop, fc) s = (il1, fc1)"
    by (cases "visit_sub_node analysis caller (in_loop, fc) s")
  from step have il1: "il1 = (in_loop \<or> is_loop s)"
    by (auto simp: visit_sub_node_def Let_def split: option.splits if_splits)
  from step have fc1: "calls_of fc1 k = calls_of fc k @ (if k = caller then
      (case call_target s of
        Some (ident, args) \<Rightarrow>
          if ident \<in> set analysis
          then [(ident, in_loop \<or> is_loop s, map describe_arg args)]
          else []
      | None \<Rightarrow> []) else [])"
    by (auto simp: visit_sub_node_def Let_def calls_of_append_call split: option.splits if_splits)
  from Cons.prems step have "foldl (visit_sub_node analysis caller) (il1, fc1) ss = (il', fc')"
    by simp
  from Cons.IH [OF this] fc1 il1 show ?case by simp
qed

lemma visit_node_other: "def_name n = None \<Longrightarrow> visit_node rt st n = st"
  by (cases n) (auto)

lemma visit_node_FunctionDef:
  assumes "def_name n = Some name"
  shows "visit_node rt (analysis, fc, fd) n =
    (analysis @ [name],
     snd (foldl (visit_sub_node (analysis @ [name]) name) (False, fc) (walk n)),
     fd(name := def_details rt n))"
  using assms by (cases n) (simp_all add: Let_def)

lemma def_details_Some: "def_name n = Some name \<Longrightarrow> def_details rt n \<noteq> None"
  by (cases n) simp_all

lemma analyze_fold:
  "foldl (visit_node rt) (analysis, fc, fd) ns = (analysis', fc', fd') \<Longrightarrow>
   analysis' = analysis @ def_names ns \<and>
   (\<forall>k. calls_of fc' k = calls_of fc k @ calls_from analysis k ns)"
proof (induction ns arbitrary: analysis fc fd)
  case Nil
  then show ?case by simp
next
  case (Cons n ns)
  show ?case
  proof (cases "def_name n")
    case None
    with Cons.prems have "foldl (visit_node rt) (analysis, fc, fd) ns = (analysis', fc', fd')"
      by (simp add: visit_node_other)
    from Cons.IH [OF this] None show ?thesis by simp
  next
    case (Some name)
    define st where "st = foldl (visit_sub_node (analysis @ [name]) name) (False, fc) (walk n)"
    have st: "foldl (visit_sub_node (analysis @ [name]) name) (False, fc) (walk n) = (fst st, snd st)"
      by (simp add: st_def)
    have fc1: "calls_of (snd st) k = calls_of fc k @
        (if k = name then scan_calls (analysis @ [name]) False (walk n) else [])" for k
      by (rule visit_sub_node_fold [OF st])
    from Cons.prems Some
    have "foldl (visit_node rt) (analysis @ [name], snd st, fd(name := def_details rt n)) ns
          = (analysis', fc', fd')"
      by (simp add: visit_node_FunctionDef st_def)
    from Cons.IH [OF this] fc1 Some show ?thesis by simp
  qed
qed

lemma details_kept:
  "foldl (visit_node rt) (analysis, fc, fd) ns = (analysis', fc', fd') \<Longrightarrow>
   \<forall>n\<in>set ns. def_name n \<noteq> Some k \<Longrightarrow> fd' k = fd k"
proof (induction ns arbitrary: analysis fc fd)
  case Nil
  then show ?case by simp
next
  case (Cons n ns)
  show ?case
  proof (cases "def_name n")
    case None
    with Cons.prems have "foldl (visit_node rt) (analysis, fc, fd) ns = (analysis', fc', fd')"
      by (simp add: visit_node_other)
    from Cons.IH [OF this] Cons.prems(2) show ?thesis by simp
  next
    case (Some name)
    with Cons.prems(2) have ne: "name \<noteq> k" by auto
    from Cons.prems(1) Some obtain fc1 where
      "foldl (visit_node rt) (analysis @ [name], fc1, fd(name := def_details rt n)) ns
          = (analysis', fc', fd')"
      by (simp add: visit_node_FunctionDef)
    from Cons.IH [OF this] Cons.prems(2) ne show ?thesis by simp
  qed
qed

lemma details_last:
  assumes "foldl (visit_node rt) (analysis, fc, fd) (pre @ d # post) = (analysis', fc', fd')"
    and "def_name d = Some k" and "\<forall>n\<in>set post. def_name n \<noteq> Some k"
  shows "fd' k = def_details rt d"
proof -
  obtain a1 c1 d1 where pre: "foldl (visit_node rt) (analysis, fc, fd) pre = (a1, c1, d1)"
    by (cases "foldl (visit_node rt) (analysis, fc, fd) pre")
  obtain c2 where "visit_node rt (a1, c1, d1) d = (a1 @ [k], c2, d1(k := def_details rt d))"
    using assms(2) by (simp add: visit_node_FunctionDef)
  with assms(1) pre
  have "foldl (visit_node rt) (a1 @ [k], c2, d1(k := def_details rt d)) post = (analysis', fc', fd')"
    by simp
  from details_kept [OF this assms(3)] show ?thesis by simp
qed

lemma details_defined:
  "foldl (visit_node rt) (analysis, fc, fd) ns = (analysis', fc', fd') \<Longrightarrow>
   \<forall>f\<in>set analysis. fd f \<noteq> None \<Longrightarrow> \<forall>f\<in>set analysis'. fd' f \<noteq> None"
proof (induction ns arbitrary: analysis fc fd)
  case Nil
  then show ?case by simp
next
  case (Cons n ns)
  show ?case
  proof (cases "def_name n")
    case None
    with Cons.prems have "foldl (visit_node rt) (analysis, fc, fd) ns = (analysis', fc', fd')"
      by (simp add: visit_node_other)
    from Cons.IH [OF this] Cons.prems(2) show ?thesis by simp
  next
    case (Some name)
    from Cons.prems(1) Some obtain fc1 where run:
      "foldl (visit_node rt) (analysis @ [name], fc1, fd(name := def_details rt n)) ns
          = (analysis', fc', fd')"
      by (simp add: visit_node_FunctionDef)
    have "\<forall>f\<in>set (analysis @ [name]). (fd(name := def_details rt n)) f \<noteq> None"
      using Cons.prems(2) def_details_Some [OF Some] by auto
    from Cons.IH [OF run this] show ?thesis .
  qed
qed

lemma analyze_ast_result:
  assumes "analyze_ast rt tree = (analysis, fc, fd)"
  shows "analysis = def_names (walk tree)"
    and "calls_of fc k = calls_from [] k (walk tree)"
    and "\<forall>f\<in>set analysis. fd f \<noteq> None"
proof -
  from assms have run: "foldl (visit_node rt) ([], [], Map.empty) (walk tree) = (analysis, fc, fd)"
    by (simp add: analyze_ast_def)
  from analyze_fold [OF run] show "analysis = def_names (walk tree)"
    and "calls_of fc k = calls_from [] k (walk tree)" by simp_all
  from details_defined [OF run] show "\<forall>f\<in>set analysis. fd f \<noteq> None" by simp
qed

lemma analyze_ast_last:
  assumes "analyze_ast rt tree = (analysis, fc, fd)"
    and "walk tree = pre @ d # post"
    and "def_name d = Some k" and "\<forall>n\<in>set post. def_name n \<noteq> Some k"
  shows "fd k = def_details rt d"
  using assms details_last [of rt "[]" "[]" Map.empty pre d post analysis fc fd k]
  by (simp add: analyze_ast_def)

lemma example_order_of_set: "sort (remdups adds) = sorted_list_of_set (set adds)"
  by (simp add: sorted_list_of_set_sort_remdups)

lemma scan_calls_finds:
  "sub_node \<in> set sub_nodes \<Longrightarrow> call_target sub_node = Some (ident, args) \<Longrightarrow>
   ident \<in> set analysis \<Longrightarrow>
   \<exists>flag. (ident, flag, map describe_arg args) \<in> set (scan_calls analysis in_loop sub_nodes)"
proof (induction sub_nodes arbitrary: in_loop)
  case Nil
  then show ?case by simp
next
  case (Cons s ss)
  show ?case
  proof (cases "sub_node = s")
    case True
    with Cons.prems show ?thesis by auto
  next
    case False
    with Cons.prems have "sub_node \<in> set ss" by simp
    from Cons.IH [OF this Cons.prems(2,3), of "in_loop \<or> is_loop s"] show ?thesis by auto
  qed
qed

lemma calls_from_append:
  "calls_from analysis k (xs @ ys) =
   calls_from analysis k xs @ calls_from (analysis @ def_names xs) k ys"
  by (induction xs arbitrary: analysis) (auto split: option.splits)

lemma scan_calls_known:
  "c \<in> set (scan_calls analysis in_loop sub_nodes) \<Longrightarrow> fst c \<in> set analysis"
  by (induction sub_nodes arbitrary: in_loop) (auto split: option.splits if_splits)

lemma calls_from_known:
  "c \<in> set (calls_from analysis caller ns) \<Longrightarrow>
   \<exists>pre d post. ns = pre @ d # post \<and> def_name d = Some caller
     \<and> fst c \<in> set (analysis @ def_names (pre @ [d]))"
proof (induction ns arbitrary: analysis)
  case Nil
  then show ?case by simp
next
  case (Cons n ns)
  show ?case
  proof (cases "def_name n")
    case None
    with Cons.prems have "c \<in> set (calls_from analysis caller ns)" by simp
    from Cons.IH [OF this] obtain pre d post where
      "ns = pre @ d # post" "def_name d = Some caller"
      "fst c \<in> set (analysis @ def_names (pre @ [d]))" by blast
    with None have "n # ns = (n # pre) @ d # post \<and> def_name d = Some caller
      \<and> fst c \<in> set (analysis @ def_names ((n # pre) @ [d]))" by simp
    then show ?thesis by blast
  next
    case (Some name)
    show ?thesis
    proof (cases "name = caller \<and> c \<in> set (scan_calls (analysis @ [name]) False (walk n))")
      case True
      with scan_calls_known [of c "analysis @ [name]" False "walk n"] Some
      have "n # ns = [] @ n # ns \<and> def_name n = Some caller
        \<and> fst c \<in> set (analysis @ def_names ([] @ [n]))" by auto
      then show ?thesis by blast
    next
      case False
      with Cons.prems Some have "c \<in> set (calls_from (analysis @ [name]) caller ns)"
        by (auto split: if_splits)
      from Cons.IH [OF this] obtain pre d post where
        "ns = pre @ d # post" "def_name d = Some caller"
        "fst c \<in> set ((analysis @ [name]) @ def_names (pre @ [d]))" by blast
      with Some have "n # ns = (n # pre) @ d # post \<and> def_name d = Some caller
        \<and> fst c \<in> set (analysis @ def_names ((n # pre) @ [d]))" by simp
      then show ?thesis by blast
    qed
  qed
qed

lemma collect_return_types_none:
  "\<forall>n\<in>set sub_nodes. returned_value n = None \<Longrightarrow>
   foldl (\<lambda>return_types sub_node.
              case returned_value sub_node of
                Some v \<Rightarrow> return_types @ [class_name v]
              | None \<Rightarrow> return_types) acc sub_nodes = acc"
  by (induction sub_nodes arbitrary: acc) auto

lemma returned_value_Some: "returned_value n = Some v \<longleftrightarrow> n = Return (Some v)"
  by (cases n rule: returned_value.cases) auto

subsection \<open>The text that \<^verbatim>\<open>generate_mermaid_syntax\<close> builds\<close>

lemma nodes_loop_text:
  "\<forall>f\<in>set analysis. fd f \<noteq> None \<Longrightarrow>
   nodes_loop fd acc analysis = Inr (acc @ concat (map (declaration_for fd) analysis))"
  by (induction analysis arbitrary: acc) (auto simp: declaration_for_def)

lemma calls_loop_outcome:
  "(list_ex (\<lambda>(callee, in_loop, params_passed). str_items params_passed = None) cs
      \<longrightarrow> calls_loop func acc cs = Inl TypeError)
   \<and> (\<not> list_ex (\<lambda>(callee, in_loop, params_passed). str_items params_passed = None) cs
        \<longrightarrow> (\<exists>t. calls_loop func acc cs = Inr (acc @ t)))"
proof (induction cs arbitrary: acc)
  case Nil
  show ?case by simp
next
  case (Cons c cs)
  obtain callee in_loop ps where c: "c = (callee, in_loop, ps)" by (cases c)
  show ?case
  proof (cases "str_items ps")
    case None
    with c show ?thesis by (simp add: edge_declaration_def)
  next
    case (Some items)
    then obtain line where line: "edge_declaration func c = Inr line"
      by (simp add: edge_declaration_def c Let_def)
    from Cons.IH [of "acc @ line"] line Some c show ?thesis
      by auto
  qed
qed

lemma edges_loop_outcome:
  "(has_non_str_descriptor fc \<longrightarrow> edges_loop acc fc = Inl TypeError)
   \<and> (\<not> has_non_str_descriptor fc \<longrightarrow> (\<exists>t. edges_loop acc fc = Inr (acc @ t)))"
proof (induction fc arbitrary: acc)
  case Nil
  show ?case by (simp add: has_non_str_descriptor_def)
next
  case (Cons p fc)
  obtain func cs where p: "p = (func, cs)" by (cases p)
  let ?bad = "list_ex (\<lambda>(callee, in_loop, params_passed). str_items params_passed = None) cs"
  show ?case
  proof (cases ?bad)
    case True
    with calls_loop_outcome [where func = func and acc = acc and cs = cs] have "calls_loop func acc cs = Inl TypeError"
      by simp
    with True p show ?thesis by (simp add: has_non_str_descriptor_def)
  next
    case False
    with calls_loop_outcome [where func = func and acc = acc and cs = cs] obtain t where
      t: "calls_loop func acc cs = Inr (acc @ t)" by auto
    have eq: "has_non_str_descriptor (p # fc) = has_non_str_descriptor fc"
      using False p by (simp add: has_non_str_descriptor_def)
    from Cons.IH [of "acc @ t"] t p eq show ?thesis by auto
  qed
qed

lemma generate_outcome:
  assumes "\<forall>f\<in>set analysis. fd f \<noteq> None"
  shows "if has_non_str_descriptor fc
         then generate_mermaid_syntax (analysis, fc, fd) = Inl TypeError
         else \<exists>edges. generate_mermaid_syntax (analysis, fc, fd)
                = Inr (header @ concat (map (declaration_for fd) analysis) @ edges @ ''```'')"
proof -
  let ?nodes = "header @ concat (map (declaration_for fd) analysis)"
  have nodes: "nodes_loop fd header analysis = Inr ?nodes"
    by (rule nodes_loop_text [OF assms])
  show ?thesis
  proof (cases "has_non_str_descriptor fc")
    case True
    with edges_loop_outcome [where fc = fc and acc = "?nodes"] have "edges_loop ?nodes fc = Inl TypeError" by simp
    with nodes True show ?thesis
      by (simp add: generate_mermaid_syntax_def header_def)
  next
    case False
    with edges_loop_outcome [where fc = fc and acc = "?nodes"] obtain t where
      "edges_loop ?nodes fc = Inr (?nodes @ t)" by auto
    with nodes False show ?thesis
      by (simp add: generate_mermaid_syntax_def header_def)
  qed
qed

lemma declaration_outcome:
  assumes "\<forall>f\<in>set analysis. fd f \<noteq> None" and "name \<in> set analysis"
  shows "if has_non_str_descriptor fc
         then generate_mermaid_syntax (analysis, fc, fd) = Inl TypeError
         else \<exists>before after. generate_mermaid_syntax (analysis, fc, fd)
                = Inr (before @ declaration_for fd name @ after)"
proof (cases "has_non_str_descriptor fc")
  case True
  with generate_outcome [OF assms(1), where fc = fc] show ?thesis by simp
next
  case False
  with generate_outcome [OF assms(1), where fc = fc] obtain edges where
    out: "generate_mermaid_syntax (analysis, fc, fd)
          = Inr (header @ concat (map (declaration_for fd) analysis) @ edges @ ''```'')"
    by auto
  from assms(2) obtain xs ys where "analysis = xs @ name # ys"
    by (auto simp: in_set_conv_decomp)
  then have "generate_mermaid_syntax (analysis, fc, fd)
      = Inr ((header @ concat (map (declaration_for fd) xs)) @ declaration_for fd name
      @ (concat (map (declaration_for fd) ys) @ edges @ ''```''))"
    using out by simp
  then have "\<exists>before after. generate_mermaid_syntax (analysis, fc, fd)
                = Inr (before @ declaration_for fd name @ after)"
    by blast
  with False show ?thesis by simp
qed


subsection \<open>The visits of \<open>forward_reference\<close>\<close>

lemma split_forward_reference:
  assumes "walk forward_reference = pre @ d # post" and "def_name d = Some ''first''"
  shows "def_names (pre @ [d]) = [''first'']"
proof -
  from assms(1) have "d \<in> set (walk forward_reference)" by simp
  with assms(2) have d: "d = FunctionDef ''first'' no_args
          [Expr (Call (Name ''second'') [] []),
           Expr (Call (Name ''print'') [Constant (CStr ''x'')] [])] [] None"
    by (auto simp: walk_def forward_reference_def no_args_def present_def)
  from assms(1) d have "pre = [forward_reference]"
    by (auto simp: walk_def forward_reference_def no_args_def present_def Cons_eq_append_conv)
  with d show ?thesis by (simp add: forward_reference_def)
qed

section \<open>The loop flag of a call\<close>

text \<open>
  C1. The claim: the edge of a call carries the label \<^verbatim>\<open>in_loop\<close> when the call site is
  nested, at any depth, in a loop within the caller's body, and the label \<^verbatim>\<open>calls\<close> when
  it is not inside any loop. The program sets \<^verbatim>\<open>in_loop\<close> at the first \<^verbatim>\<open>For\<close> or \<^verbatim>\<open>While\<close>
  node of the breadth-first walk of the caller and never clears it, so every call that
  the walk reaches after a loop node is recorded as in a loop, wherever it stands. In
  \<open>call_after_loop\<close> the call of \<^verbatim>\<open>helper\<close> follows the loop of \<^verbatim>\<open>main\<close> and is not nested
  in it (it is no descendant of the \<^verbatim>\<open>For\<close> node): the flag of the specification's wording
  (\<open>lexical_calls\<close>) is \<open>False\<close> for it, the program records \<open>True\<close> and emits the
  label \<^verbatim>\<open>in_loop\<close>.
\<close>

theorem call_after_loop_labelled_in_loop:
  "fst (snd (analyze_ast ascending_runtime call_after_loop))
     = [(''main'', [(''helper'', True, [])])]
   \<and> \<not> descendant (For (Name ''i'') (Name ''x'') [Other ''Pass'' []] [])
         (Call (Name ''helper'') [] [])
   \<and> lexical_calls [''helper'', ''main''] False main_after_loop = [(''helper'', False, [])]
   \<and> generate_mermaid_syntax (analyze_ast ascending_runtime call_after_loop)
     = Inr (''```mermaid'' @ newline @ ''graph TD;'' @ newline
            @ ''helper(helper'' @ backslash_n @ backslash_n @ ''PARAMS: ''
            @ backslash_n @ backslash_n @ ''RETURNS: None''
            @ backslash_n @ backslash_n @ ''DOC: None)'' @ newline
            @ ''main(main'' @ backslash_n @ backslash_n @ ''PARAMS: ''
            @ backslash_n @ backslash_n @ ''RETURNS: None''
            @ backslash_n @ backslash_n @ ''DOC: None)'' @ newline
            @ ''main-->|'' @ dquote @ ''in_loop params: '' @ dquote @ ''|helper;'' @ newline
            @ ''```'')"
  by (simp add: call_after_loop_def main_after_loop_def program_defs example_defs
      set_walk [symmetric])

section \<open>The order of the return categories\<close>

text \<open>
  C2. The claim: two runs on the same source text produce the same output text, and in
  particular the same \<^verbatim>\<open>RETURNS\<close> text. The program joins \<^verbatim>\<open>return_types\<close>, a \<^verbatim>\<open>set\<close> of
  \<^verbatim>\<open>str\<close>, in the set's iteration order, which is not the same in every process. For
  \<open>two_return_kinds\<close> the two runtimes, which differ in that order only, give two
  different texts: \<^verbatim>\<open>RETURNS: Constant, Name\<close> and \<^verbatim>\<open>RETURNS: Name, Constant\<close>.
\<close>

theorem returns_text_depends_on_set_order:
  "generate_mermaid_syntax (analyze_ast ascending_runtime two_return_kinds)
     = Inr (''```mermaid'' @ newline @ ''graph TD;'' @ newline
            @ ''f(f'' @ backslash_n @ backslash_n @ ''PARAMS: x''
            @ backslash_n @ backslash_n @ ''RETURNS: Constant, Name''
            @ backslash_n @ backslash_n @ ''DOC: None)'' @ newline @ ''```'')
   \<and> generate_mermaid_syntax (analyze_ast descending_runtime two_return_kinds)
     = Inr (''```mermaid'' @ newline @ ''graph TD;'' @ newline
            @ ''f(f'' @ backslash_n @ backslash_n @ ''PARAMS: x''
            @ backslash_n @ backslash_n @ ''RETURNS: Name, Constant''
            @ backslash_n @ backslash_n @ ''DOC: None)'' @ newline @ ''```'')
   \<and> generate_mermaid_syntax (analyze_ast ascending_runtime two_return_kinds)
     \<noteq> generate_mermaid_syntax (analyze_ast descending_runtime two_return_kinds)"
  by (simp add: two_return_kinds_def program_defs example_defs)

section \<open>Serialising a call with a numeric argument\<close>

text \<open>
  C3. The claim: on every tree extraction followed by serialisation succeeds, and
  serialising the argument descriptors of a call edge never raises, also when an argument
  is a numeric literal. On \<open>numeric_argument\<close> the extractor records the integer 1 itself
  as the descriptor, and \<^verbatim>\<open>', '.join(params_passed)\<close> raises \<^verbatim>\<open>TypeError\<close>: the serialiser
  produces no text.
\<close>

theorem numeric_argument_raises:
  "fst (snd (analyze_ast ascending_runtime numeric_argument))
     = [(''main'', [(''helper'', False, [CInt 1])])]
   \<and> generate_mermaid_syntax (analyze_ast ascending_runtime numeric_argument)
     = Inl TypeError"
  by (simp add: numeric_argument_def program_defs example_defs)

section \<open>A name defined more than once\<close>




section \<open>Calls of names that are not in the name list\<close>

text \<open>
  C5. A call whose target is not in \<^verbatim>\<open>analysis\<close> when it is visited records no edge, and
  nothing is reported (\<open>analyze_ast\<close> has no error among its results). Stated on the
  whole run: \<open>def_names (pre @ [d])\<close> is \<^verbatim>\<open>analysis\<close> while the body of the definition
  \<open>d\<close> is traversed; when \<open>callee\<close> is in that list for no definition of \<open>caller\<close>
  (a built-in, an imported function, a function defined only later in the walk), then
  \<^verbatim>\<open>function_calls[caller]\<close> holds no call of \<open>callee\<close>.
\<close>

theorem unknown_target_no_edge:
  assumes "analyze_ast rt tree = (analysis, function_calls, function_details)"
    and "\<And>pre d post. walk tree = pre @ d # post \<Longrightarrow> def_name d = Some caller \<Longrightarrow>
           callee \<notin> set (def_names (pre @ [d]))"
  shows "callee \<notin> fst ` set (calls_of function_calls caller)"
proof
  assume "callee \<in> fst ` set (calls_of function_calls caller)"
  then obtain c where c: "c \<in> set (calls_of function_calls caller)" and "fst c = callee"
    by auto
  from c analyze_ast_result(2) [OF assms(1), of caller]
  have "c \<in> set (calls_from [] caller (walk tree))" by simp
  from calls_from_known [OF this] \<open>fst c = callee\<close> assms(2) show False by auto
qed

theorem unknown_target_no_edge_witness:
  "(\<nexists>pre d post. walk forward_reference = pre @ d # post \<and> def_name d = Some ''first''
        \<and> ''second'' \<in> set (def_names (pre @ [d])))
   \<and> ''second'' \<notin> fst ` set (calls_of
         (fst (snd (analyze_ast ascending_runtime forward_reference))) ''first'')
   \<and> fst (snd (analyze_ast ascending_runtime forward_reference)) = []"
proof -
  have h: "''second'' \<notin> set (def_names (pre @ [d]))"
    if "walk forward_reference = pre @ d # post" and "def_name d = Some ''first''" for pre d post
    using split_forward_reference [OF that] by simp
  obtain analysis fc fd where
    r: "analyze_ast ascending_runtime forward_reference = (analysis, fc, fd)"
    by (cases "analyze_ast ascending_runtime forward_reference")
  have "''second'' \<notin> fst ` set (calls_of fc ''first'')"
    by (rule unknown_target_no_edge [OF r]) (rule h)
  moreover have "fst (snd (analyze_ast ascending_runtime forward_reference)) = []"
    by (simp add: forward_reference_def program_defs example_defs)
  ultimately show ?thesis using h r by auto
qed

section \<open>Functions that return no value\<close>

text \<open>
  C6, as claimed: for every function whose body holds no \<^verbatim>\<open>return\<close> with a value, the
  return category emitted for it is the text \<^verbatim>\<open>None\<close>. In \<open>redefined\<close> the first
  definition of \<^verbatim>\<open>f\<close> returns no value, the second, visited later, returns a name and
  overwrites the entry: both declarations of \<^verbatim>\<open>f\<close> read \<^verbatim>\<open>RETURNS: Name\<close>, none reads
  \<^verbatim>\<open>RETURNS: None\<close>.
\<close>

theorem sentinel_overwritten_by_later_definition:
  "descendant redefined plain_f
   \<and> (\<nexists>v. descendant plain_f (Return (Some v)))
   \<and> generate_mermaid_syntax (analyze_ast ascending_runtime redefined) = Inr redefined_output
   \<and> occurrences ''RETURNS: None'' redefined_output = 0
   \<and> occurrences ''RETURNS: Name'' redefined_output = 2"
  by (simp add: set_walk [symmetric] redefined_def plain_f_def second_f_def
      redefined_output_def program_defs example_defs backslash_n_def newline_def)

text \<open>
  C6, amended. For a function definition that the walk visits and in which no \<^verbatim>\<open>return\<close>
  carries a value, the return category recorded at the visit is the text \<^verbatim>\<open>None\<close>, not
  the empty text. When the walk reaches no definition of the same name after it, that
  entry is the one in \<^verbatim>\<open>function_details\<close> at the end, the declaration built from it reads
  \<^verbatim>\<open>RETURNS: None\<close>, and serialisation either raises \<^verbatim>\<open>TypeError\<close>, exactly when a
  recorded call has a descriptor that is not a \<^verbatim>\<open>str\<close>, or gives a text that holds that
  declaration.
\<close>

theorem no_valued_return_gives_sentinel:
  assumes "analyze_ast rt tree = (analysis, function_calls, function_details)"
    and "walk tree = pre @ FunctionDef name args body decorator_list rets # post"
    and "\<forall>v. \<not> descendant (FunctionDef name args body decorator_list rets) (Return (Some v))"
  shows "returns (details_of rt (FunctionDef name args body decorator_list rets) args body)
           = ''None''
    \<and> ((\<forall>n\<in>set post. def_name n \<noteq> Some name) \<longrightarrow>
         (\<exists>d. function_details name = Some d \<and> returns d = ''None''
            \<and> node_declaration d name =
                name @ ''('' @ name @ backslash_n @ backslash_n @ ''PARAMS: ''
                @ join '', '' (arg_names args) @ backslash_n @ backslash_n @ ''RETURNS: None''
                @ backslash_n @ backslash_n @ ''DOC: ''
                @ (case get_docstring rt body of
                     None \<Rightarrow> ''None'' | Some doc \<Rightarrow> if doc \<noteq> [] then doc else ''None'')
                @ '')'' @ newline
            \<and> (if has_non_str_descriptor function_calls
                then generate_mermaid_syntax (analysis, function_calls, function_details)
                       = Inl TypeError
                else \<exists>before after.
                       generate_mermaid_syntax (analysis, function_calls, function_details)
                       = Inr (before @ node_declaration d name @ after))))"
proof -
  let ?d = "FunctionDef name args body decorator_list rets"
  let ?e = "details_of rt ?d args body"
  have "returned_value n = None" if "n \<in> set (walk ?d)" for n
  proof (cases "returned_value n")
    case (Some v)
    with that assms(3) show ?thesis by (simp add: returned_value_Some set_walk)
  qed simp
  then have "collect_return_types (walk ?d) = []"
    unfolding collect_return_types_def by (intro collect_return_types_none) simp
  then have e: "returns ?e = ''None''" "params ?e = arg_names args"
    "docstring ?e = get_docstring rt body"
    by (simp_all add: details_of_def)
  have decl: "node_declaration ?e name =
                name @ ''('' @ name @ backslash_n @ backslash_n @ ''PARAMS: ''
                @ join '', '' (arg_names args) @ backslash_n @ backslash_n @ ''RETURNS: None''
                @ backslash_n @ backslash_n @ ''DOC: ''
                @ (case get_docstring rt body of
                     None \<Rightarrow> ''None'' | Some doc \<Rightarrow> if doc \<noteq> [] then doc else ''None'')
                @ '')'' @ newline"
    by (simp add: node_declaration_def e)
  note res = analyze_ast_result [OF assms(1)]
  have mem: "name \<in> set analysis"
    using res(1) assms(2) by (simp add: def_names_append)
  have last: "function_details name = Some ?e" if "\<forall>n\<in>set post. def_name n \<noteq> Some name"
    using analyze_ast_last [OF assms(1,2) _ that] by simp
  have emitted: "if has_non_str_descriptor function_calls
                then generate_mermaid_syntax (analysis, function_calls, function_details)
                       = Inl TypeError
                else \<exists>before after.
                       generate_mermaid_syntax (analysis, function_calls, function_details)
                       = Inr (before @ node_declaration ?e name @ after)"
    if "\<forall>n\<in>set post. def_name n \<noteq> Some name"
  proof -
    have eq: "declaration_for function_details name = node_declaration ?e name"
      using last [OF that] by (simp add: declaration_for_def)
    from declaration_outcome [OF res(3) mem, where fc = function_calls] show ?thesis
      unfolding eq .
  qed
  from e(1) decl last emitted show ?thesis by blast
qed

theorem no_valued_return_gives_sentinel_witness:
  "(\<nexists>v. descendant main_with_loop (Return (Some v)))
   \<and> list_all (\<lambda>n. def_name n \<noteq> Some ''main'') (drop 3 (walk helper_and_main))
   \<and> map_option returns (snd (snd (analyze_ast ascending_runtime helper_and_main)) ''main'')
       = Some ''None''
   \<and> \<not> has_non_str_descriptor (fst (snd (analyze_ast ascending_runtime helper_and_main)))
   \<and> (\<exists>before after.
         generate_mermaid_syntax (analyze_ast ascending_runtime helper_and_main)
         = Inr (before @ ''main(main'' @ backslash_n @ backslash_n @ ''PARAMS: n''
                @ backslash_n @ backslash_n @ ''RETURNS: None''
                @ backslash_n @ backslash_n @ ''DOC: None)'' @ newline @ after))"
proof -
  let ?rt = ascending_runtime
  let ?helper = "FunctionDef ''helper'' (one_arg ''x'') [Return (Some (Name ''x''))] [] None"
  let ?post = "drop 3 (walk helper_and_main)"
  obtain analysis fc fd where r: "analyze_ast ?rt helper_and_main = (analysis, fc, fd)"
    by (cases "analyze_ast ?rt helper_and_main")
  have split: "walk helper_and_main =
      [helper_and_main, ?helper] @ FunctionDef ''main'' (one_arg ''n'')
       [For (Name ''i'') (Call (Name ''range'') [Name ''n''] [])
          [Expr (Call (Name ''helper'') [Name ''n''] [])] []] [] None # ?post"
    by (simp add: walk_def helper_and_main_def main_with_loop_def one_arg_def present_def)
  have noret: "\<forall>v. \<not> descendant (FunctionDef ''main'' (one_arg ''n'')
       [For (Name ''i'') (Call (Name ''range'') [Name ''n''] [])
          [Expr (Call (Name ''helper'') [Name ''n''] [])] []] [] None) (Return (Some v))"
    by (simp add: set_walk [symmetric] walk_def one_arg_def present_def)
  have later: "\<forall>n\<in>set ?post. def_name n \<noteq> Some ''main''"
    by (simp add: walk_def helper_and_main_def main_with_loop_def one_arg_def present_def)
  have "fst (snd (analyze_ast ?rt helper_and_main)) = [(''main'', [(''helper'', True, [CStr ''n''])])]"
    by (simp add: helper_and_main_def main_with_loop_def program_defs example_defs)
  with r have good: "\<not> has_non_str_descriptor fc"
    by (simp add: has_non_str_descriptor_def)
  from no_valued_return_gives_sentinel [OF r split noret] later good
  obtain d before after where "fd ''main'' = Some d" "returns d = ''None''"
    "generate_mermaid_syntax (analysis, fc, fd)
      = Inr (before @ ''main(main'' @ backslash_n @ backslash_n @ ''PARAMS: n''
                @ backslash_n @ backslash_n @ ''RETURNS: None''
                @ backslash_n @ backslash_n @ ''DOC: None)'' @ newline @ after)"
    by (fastforce simp: one_arg_def)
  with noret later good r show ?thesis
    by (auto simp: main_with_loop_def list_all_iff)
qed

section \<open>A run whose validation fails\<close>

text \<open>
  C7. When nothing is at the input path, or the path does not end with \<^verbatim>\<open>.py\<close>, \<^verbatim>\<open>main\<close>
  returns without raising, and the world after it is the world before it with one
  \<^verbatim>\<open>ERROR\<close> record added to the log: no file is written, the destination is untouched.
\<close>

theorem failed_validation_writes_nothing:
  assumes "\<not> path_exists w file_path \<or> \<not> endswith file_path ''.py''"
  shows "main rt file_path output_path w
    = (Inr (),
       w\<lparr>logged := logged w
            @ [(ERROR, ''Validation failed: ''
                  @ (if \<not> path_exists w file_path then ''File does not exist.''
                     else ''Not a Python file.''))]\<rparr>)
    \<and> files (snd (main rt file_path output_path w)) = files w"
  using assms by (auto simp: main_def validate_file_path_def logging_def)

theorem failed_validation_writes_nothing_witness:
  "\<not> path_exists empty_world ''example.py''
   \<and> main ascending_runtime ''example.py'' ''output.md'' empty_world
     = (Inr (), empty_world\<lparr>logged := [(ERROR, ''Validation failed: File does not exist.'')]\<rparr>)
   \<and> files (snd (main ascending_runtime ''example.py'' ''output.md'' empty_world))
        ''output.md'' = None
   \<and> path_exists text_file_world ''notes.txt'' \<and> \<not> endswith ''notes.txt'' ''.py''
   \<and> main ascending_runtime ''notes.txt'' ''output.md'' text_file_world
     = (Inr (), text_file_world\<lparr>logged := [(ERROR, ''Validation failed: Not a Python file.'')]\<rparr>)
   \<and> files (snd (main ascending_runtime ''notes.txt'' ''output.md'' text_file_world))
        ''output.md'' = None"
proof -
  have absent: "\<not> path_exists empty_world ''example.py''"
    by (simp add: path_exists_def empty_world_def)
  then have h1: "\<not> path_exists empty_world ''example.py'' \<or> \<not> endswith ''example.py'' ''.py''" ..
  have there: "path_exists text_file_world ''notes.txt''"
    by (simp add: path_exists_def text_file_world_def)
  have suffix: "\<not> endswith ''notes.txt'' ''.py''"
    by (simp add: endswith_def)
  then have h2: "\<not> path_exists text_file_world ''notes.txt'' \<or> \<not> endswith ''notes.txt'' ''.py''" ..
  from failed_validation_writes_nothing [OF h1, of ascending_runtime "''output.md''"]
    failed_validation_writes_nothing [OF h2, of ascending_runtime "''output.md''"]
    absent there suffix
  show ?thesis by (simp add: empty_world_def text_file_world_def)
qed

section \<open>The validator\<close>

lemma endswith_iff: "endswith s suffix \<longleftrightarrow> (\<exists>stem. s = stem @ suffix)"
proof
  assume "endswith s suffix"
  then have "s = take (length s - length suffix) s @ suffix"
    by (metis append_take_drop_id endswith_def)
  then show "\<exists>stem. s = stem @ suffix" ..
next
  assume "\<exists>stem. s = stem @ suffix"
  then show "endswith s suffix" by (auto simp: endswith_def)
qed

text \<open>
  C8. For every path, \<^verbatim>\<open>validate_file_path\<close> returns the not-found message exactly when
  nothing is at the path, the not-a-Python-file message exactly when something is at the
  path and the path does not end with \<^verbatim>\<open>.py\<close>, and \<^verbatim>\<open>True\<close> in all other cases, that is
  exactly when something is at the path and the path is some stem followed by \<^verbatim>\<open>.py\<close>.
\<close>

theorem validate_file_path_outcomes:
  "(validate_file_path w p = PyStr ''File does not exist.'') = (files w p = None)
   \<and> (validate_file_path w p = PyStr ''Not a Python file.'')
       = (files w p \<noteq> None \<and> (\<nexists>stem. p = stem @ ''.py''))
   \<and> (validate_file_path w p = PyBool True)
       = (files w p \<noteq> None \<and> (\<exists>stem. p = stem @ ''.py''))"
  by (simp add: validate_file_path_def path_exists_def endswith_iff)

section \<open>A function that calls itself\<close>

text \<open>
  C9. For a function definition anywhere in the tree whose body holds a call of the
  function's own name, \<^verbatim>\<open>function_calls\<close> holds an edge from the name to itself, with the
  descriptors of the call's arguments: the name is appended to \<^verbatim>\<open>analysis\<close> before the
  body is traversed.
\<close>

theorem self_call_recorded:
  assumes "descendant tree (FunctionDef name args body decorator_list rets)"
    and "descendant (FunctionDef name args body decorator_list rets)
           (Call (Name name) call_args keywords)"
    and "analyze_ast rt tree = (analysis, function_calls, function_details)"
  shows "\<exists>in_loop. (name, in_loop, map describe_arg call_args) \<in> set (calls_of function_calls name)"
proof -
  let ?d = "FunctionDef name args body decorator_list rets"
  from assms(1) have "?d \<in> set (walk tree)" by (simp add: set_walk)
  then obtain pre post where split: "walk tree = pre @ ?d # post"
    by (auto simp: in_set_conv_decomp)
  from assms(2) have "Call (Name name) call_args keywords \<in> set (walk ?d)"
    by (simp add: set_walk)
  from scan_calls_finds [OF this, of name call_args "def_names pre @ [name]" False]
  obtain flag where
    "(name, flag, map describe_arg call_args) \<in> set (scan_calls (def_names pre @ [name]) False (walk ?d))"
    by auto
  then have "(name, flag, map describe_arg call_args) \<in> set (calls_from [] name (walk tree))"
    by (simp add: split calls_from_append)
  with analyze_ast_result(2) [OF assms(3), of name] show ?thesis by auto
qed

theorem self_call_recorded_witness:
  "descendant self_call
     (FunctionDef ''countdown'' (one_arg ''n'')
        [Return (Some (Call (Name ''countdown'') [Name ''n''] []))] [] None)
   \<and> calls_of (fst (snd (analyze_ast ascending_runtime self_call))) ''countdown''
       = [(''countdown'', False, [CStr ''n''])]"
proof -
  let ?d = "FunctionDef ''countdown'' (one_arg ''n'')
        [Return (Some (Call (Name ''countdown'') [Name ''n''] []))] [] None"
  have d: "descendant self_call ?d"
    by (simp add: set_walk [symmetric] walk_def self_call_def one_arg_def present_def)
  have c: "descendant ?d (Call (Name ''countdown'') [Name ''n''] [])"
    by (simp add: set_walk [symmetric] walk_def one_arg_def present_def)
  obtain analysis fc fd where r: "analyze_ast ascending_runtime self_call = (analysis, fc, fd)"
    by (cases "analyze_ast ascending_runtime self_call")
  from self_call_recorded [OF d c r]
  have "\<exists>in_loop. (''countdown'', in_loop, [CStr ''n'']) \<in> set (calls_of fc ''countdown'')" by simp
  moreover have "calls_of (fst (snd (analyze_ast ascending_runtime self_call))) ''countdown''
       = [(''countdown'', False, [CStr ''n''])]"
    by (simp add: self_call_def program_defs example_defs)
  ultimately show ?thesis using d by simp
qed

section \<open>Nested definitions\<close>



end
